theory Spec2Isabelle
  imports Complex_Main "HOL-Library.Log_Nat"
begin

section \<open>Data quality checks of the interactive notebook\<close>

text \<open>
  The notebook \<^verbatim>\<open>data_quality_interactive.ipynb\<close> defines three checks of a pandas
  Series, \<^verbatim>\<open>check_completeness\<close>, \<^verbatim>\<open>validate_varchar_detailed\<close> and
  \<^verbatim>\<open>validate_bigint_detailed\<close>, and the loop \<^verbatim>\<open>your_original_style\<close> they replace.
  They are embedded here as functions on an object-dtype Series: a list of Python objects.
  That is the dtype pandas gives to a column of strings, and to the columns of the notebook's
  own tests of the two validity checks. The integer check is embedded a second time, as
  \<open>validate_bigint_float64\<close>, on a Series of dtype \<^verbatim>\<open>float64\<close>: the dtype pandas gives to a
  column of floats, and to a column of ints with a missing value. The \<^verbatim>\<open>print\<close> calls and
  the \<^verbatim>\<open>column_name\<close> argument, which only the prints read, are left out.
\<close>

subsection \<open>Python objects and numbers\<close>

text \<open>
  The objects a Series holds: \<^verbatim>\<open>None\<close>, the float \<^verbatim>\<open>nan\<close>, a \<^verbatim>\<open>str\<close>, an \<^verbatim>\<open>int\<close>
  (unbounded) and a finite \<^verbatim>\<open>float\<close>, given by its exact value.
\<close>

datatype pyval = PNone | PNaN | PStr string | PInt int | PFloat rat

type_synonym series = "pyval list"

text \<open>
  A \<^verbatim>\<open>numpy.float64\<close> value: a finite float, given by its exact value, an infinity or
  \<^verbatim>\<open>nan\<close>. Division by zero does not raise in numpy: it gives \<^verbatim>\<open>nan\<close> or an infinity.
\<close>

datatype npfloat = Finite rat | PosInf | NegInf | NotANumber

text \<open>
  The exceptions the checks can raise, all of them from inside pandas and numpy.
  \<open>UnsupportedTypeError\<close> is the error of the specification's taxonomy; no statement of the
  notebook raises it.
\<close>

datatype pyerror = AttributeError | TypeError | ValueError | OverflowError | UnsupportedTypeError

record quality_counts =
  total_values :: int
  missing_values :: int
  completeness_rate :: npfloat

record completeness_result = quality_counts +
  present_values :: int

record validity_result = quality_counts +
  valid_values :: int
  invalid_values :: int
  validity_rate :: npfloat

subsection \<open>float64 arithmetic\<close>

text \<open>Rounding to the nearest integer, a tie going to the even neighbour.\<close>

definition round_half_even :: "rat \<Rightarrow> int" where
  "round_half_even x =
     (let f = \<lfloor>x\<rfloor>; d = x - of_int f
      in if d < 1 / 2 then f
         else if 1 / 2 < d then f + 1
         else if even f then f else f + 1)"

text \<open>
  The binary exponent of a number \<open>x \<noteq> 0\<close>: the \<open>e\<close> with \<open>2\<^sup>e \<le> \<bar>x\<bar> < 2\<^sup>e\<^sup>+\<^sup>1\<close>.
\<close>

definition float_exponent :: "rat \<Rightarrow> int" where
  "float_exponent x =
     (let (p, q) = quotient_of \<bar>x\<bar>; e = bitlen p - bitlen q
      in if \<bar>x\<bar> < 2 powi e then e - 1 else e)"

text \<open>
  The float64 nearest to \<open>x\<close>: \<open>x\<close> rounded to 53 significant bits, a tie going to the even
  significand. Every float64 operation returns the exact result rounded this way. The
  exponent range is not bounded here: the numbers of the checks, counts and percentages,
  are far from the limits of the format.
\<close>

definition fl :: "rat \<Rightarrow> rat" where
  "fl x =
     (if x = 0 then 0
      else of_int (round_half_even (x / 2 powi (float_exponent x - 52)))
           * 2 powi (float_exponent x - 52))"

text \<open>
  \<^verbatim>\<open>a / b\<close> where one operand is a \<^verbatim>\<open>numpy.int64\<close>: both operands are converted to
  float64 and divided there.
\<close>

definition np_true_divide :: "int \<Rightarrow> int \<Rightarrow> npfloat" where
  "np_true_divide a b =
     (if b = 0 then (if a = 0 then NotANumber else if 0 < a then PosInf else NegInf)
      else Finite (fl (fl (of_int a) / fl (of_int b))))"

text \<open>\<^verbatim>\<open>x * 100\<close> for a float64 \<open>x\<close>; the factor \<open>k\<close> is a float64 itself.\<close>

definition np_times :: "npfloat \<Rightarrow> rat \<Rightarrow> npfloat" where
  "np_times x k =
     (case x of
        Finite q \<Rightarrow> Finite (fl (q * k))
      | PosInf \<Rightarrow> (if 0 < k then PosInf else if k < 0 then NegInf else NotANumber)
      | NegInf \<Rightarrow> (if 0 < k then NegInf else if k < 0 then PosInf else NotANumber)
      | NotANumber \<Rightarrow> NotANumber)"

text \<open>
  \<^verbatim>\<open>round(x, 2)\<close> of a \<^verbatim>\<open>numpy.float64\<close> is numpy's rounding: multiply by \<open>100.0\<close>,
  round to the nearest integer, divide by \<open>100.0\<close>, each step in float64. \<^verbatim>\<open>nan\<close> and
  the infinities are returned as they are.
\<close>

definition py_round2 :: "npfloat \<Rightarrow> npfloat" where
  "py_round2 x =
     (case x of
        Finite q \<Rightarrow> Finite (fl (of_int (round_half_even (fl (q * 100))) / 100))
      | _ \<Rightarrow> x)"

subsection \<open>pandas operations on an object-dtype Series\<close>

text \<open>\<^verbatim>\<open>pd.isna(value)\<close>, and elementwise \<^verbatim>\<open>data.isna()\<close>.\<close>

fun pd_isna :: "pyval \<Rightarrow> bool" where
  "pd_isna PNone = True"
| "pd_isna PNaN = True"
| "pd_isna _ = False"

definition isna :: "series \<Rightarrow> bool list" where
  "isna data = map pd_isna data"

text \<open>\<^verbatim>\<open>.sum()\<close> of a boolean Series: the number of \<^verbatim>\<open>True\<close> entries.\<close>

definition bool_sum :: "bool list \<Rightarrow> int" where
  "bool_sum bs = int (length (filter (\<lambda>b. b) bs))"

text \<open>
  The \<^verbatim>\<open>.str\<close> accessor first infers the kind of the values
  (\<^verbatim>\<open>lib.infer_dtype(values, skipna=True)\<close>) and raises \<^verbatim>\<open>AttributeError\<close>
  ("Can only use .str accessor with string values!") unless the kind is one of
  \<^verbatim>\<open>string\<close>, \<^verbatim>\<open>empty\<close>, \<^verbatim>\<open>bytes\<close>, \<^verbatim>\<open>mixed\<close>, \<^verbatim>\<open>mixed-integer\<close>.
\<close>

datatype inferred =
  InfEmpty | InfString | InfMixed | InfMixedInteger
  | InfInteger | InfIntegerNa | InfFloating | InfMixedIntegerFloat

fun is_str :: "pyval \<Rightarrow> bool" where
  "is_str (PStr _) = True"
| "is_str _ = False"

fun is_integer_object :: "pyval \<Rightarrow> bool" where
  "is_integer_object (PInt _) = True"
| "is_integer_object _ = False"

fun is_float_object :: "pyval \<Rightarrow> bool" where
  "is_float_object (PFloat _) = True"
| "is_float_object PNaN = True"
| "is_float_object _ = False"

definition mixed_kind :: "series \<Rightarrow> inferred" where
  "mixed_kind vals =
     (if list_ex is_integer_object vals then InfMixedInteger else InfMixed)"

definition integer_float_kind :: "series \<Rightarrow> inferred" where
  "integer_float_kind vals =
     (if list_all (\<lambda>v. is_integer_object v \<or> pd_isna v) vals
      then InfIntegerNa else InfMixedIntegerFloat)"

definition infer_dtype :: "series \<Rightarrow> inferred" where
  "infer_dtype vals =
     (case filter (\<lambda>v. \<not> pd_isna v) vals of
        [] \<Rightarrow> InfEmpty
      | val # _ \<Rightarrow>
          (case val of
             PInt _ \<Rightarrow>
               if list_all (\<lambda>v. is_integer_object v \<or> pd_isna v) vals then InfInteger
               else if list_all (\<lambda>v. is_integer_object v \<or> is_float_object v \<or> pd_isna v) vals
               then integer_float_kind vals
               else InfMixedInteger
           | PFloat _ \<Rightarrow>
               if list_all is_float_object vals then InfFloating
               else if list_all (\<lambda>v. is_integer_object v \<or> is_float_object v \<or> pd_isna v) vals
               then integer_float_kind vals
               else mixed_kind vals
           | PStr _ \<Rightarrow>
               if list_all (\<lambda>v. is_str v \<or> pd_isna v) vals then InfString
               else mixed_kind vals
           | _ \<Rightarrow> mixed_kind vals))"

definition allowed_types :: "inferred list" where
  "allowed_types = [InfString, InfEmpty, InfMixed, InfMixedInteger]"

definition str_accessor :: "series \<Rightarrow> pyerror + series" where
  "str_accessor data =
     (if infer_dtype data \<in> set allowed_types then Inr data else Inl AttributeError)"

text \<open>
  \<^verbatim>\<open>.str.len()\<close> of one element: the length of a string; \<^verbatim>\<open>nan\<close> (here \<open>None\<close>) for
  a missing value and for an object \<^verbatim>\<open>len\<close> does not accept (an int, a float), whose
  \<^verbatim>\<open>TypeError\<close> pandas catches.
\<close>

fun str_len :: "pyval \<Rightarrow> int option" where
  "str_len (PStr s) = Some (int (length s))"
| "str_len _ = None"

text \<open>\<^verbatim>\<open>lengths <= max_length\<close>: a comparison with \<^verbatim>\<open>nan\<close> is \<^verbatim>\<open>False\<close>.\<close>

fun nan_le :: "int option \<Rightarrow> int \<Rightarrow> bool" where
  "nan_le (Some l) m = (l \<le> m)"
| "nan_le None m = False"

text \<open>
  \<^verbatim>\<open>values.where(cond, np.nan)\<close> on a boolean Series: the value where \<open>cond\<close> holds,
  \<^verbatim>\<open>nan\<close> (here \<open>None\<close>) elsewhere.
\<close>

definition series_where :: "bool list \<Rightarrow> bool list \<Rightarrow> bool option list" where
  "series_where vals cond = map (\<lambda>(v, c). if c then Some v else None) (zip vals cond)"

text \<open>\<^verbatim>\<open>(results == b).sum()\<close>: \<^verbatim>\<open>nan\<close> equals neither \<^verbatim>\<open>True\<close> nor \<^verbatim>\<open>False\<close>.\<close>

definition count_eq :: "bool option list \<Rightarrow> bool \<Rightarrow> int" where
  "count_eq results b = bool_sum (map (\<lambda>r. r = Some b) results)"

text \<open>
  \<^verbatim>\<open>data >= bound\<close> and \<^verbatim>\<open>data <= bound\<close> on an object Series compare element by
  element with Python's operators: a missing value gives \<^verbatim>\<open>False\<close>, an int or a float is
  compared exactly with the int bound, and a \<^verbatim>\<open>str\<close> raises \<^verbatim>\<open>TypeError\<close>. This is the
  comparison of an object Series only; that of a float64 Series is \<open>f64_ge\<close>, \<open>f64_le\<close>
  below.
\<close>

fun object_ge :: "pyval \<Rightarrow> int \<Rightarrow> pyerror + bool" where
  "object_ge PNone b = Inr False"
| "object_ge PNaN b = Inr False"
| "object_ge (PInt n) b = Inr (b \<le> n)"
| "object_ge (PFloat q) b = Inr (of_int b \<le> q)"
| "object_ge (PStr s) b = Inl TypeError"

fun object_le :: "pyval \<Rightarrow> int \<Rightarrow> pyerror + bool" where
  "object_le PNone b = Inr False"
| "object_le PNaN b = Inr False"
| "object_le (PInt n) b = Inr (n \<le> b)"
| "object_le (PFloat q) b = Inr (q \<le> of_int b)"
| "object_le (PStr s) b = Inl TypeError"

text \<open>An elementwise operation that can raise: the first error stops it.\<close>

fun map_result :: "('a \<Rightarrow> pyerror + 'b) \<Rightarrow> 'a list \<Rightarrow> pyerror + 'b list" where
  "map_result f [] = Inr []"
| "map_result f (x # xs) =
     (case f x of
        Inl e \<Rightarrow> Inl e
      | Inr y \<Rightarrow> (case map_result f xs of Inl e \<Rightarrow> Inl e | Inr ys \<Rightarrow> Inr (y # ys)))"

text \<open>
  \<^verbatim>\<open>data.astype('float64')\<close> of one element: \<^verbatim>\<open>None\<close> becomes \<^verbatim>\<open>nan\<close>; an int
  becomes the nearest float, and raises \<^verbatim>\<open>OverflowError\<close> when it rounds beyond the
  largest float; a \<^verbatim>\<open>str\<close> that is no number raises \<^verbatim>\<open>ValueError\<close> (numeric strings
  are not modelled: the comparison of step 2 has raised before a \<^verbatim>\<open>str\<close> gets here).
  The result keeps only what step 3 reads: the float is \<^verbatim>\<open>nan\<close> (\<open>None\<close>), or whether
  \<^verbatim>\<open>x.is_integer()\<close> holds of it.
\<close>

definition float_max_int :: int where
  "float_max_int = 2 ^ 1024 - 2 ^ 970"

fun astype_float64 :: "pyval \<Rightarrow> pyerror + bool option" where
  "astype_float64 PNone = Inr None"
| "astype_float64 PNaN = Inr None"
| "astype_float64 (PInt n) = (if \<bar>n\<bar> < float_max_int then Inr (Some True) else Inl OverflowError)"
| "astype_float64 (PFloat q) = Inr (Some (of_int \<lfloor>q\<rfloor> = q))"
| "astype_float64 (PStr s) = Inl ValueError"

text \<open>The lambda of step 3: \<^verbatim>\<open>x.is_integer() if pd.notna(x) else True\<close>.\<close>

fun is_integer_or_missing :: "bool option \<Rightarrow> bool" where
  "is_integer_or_missing (Some b) = b"
| "is_integer_or_missing None = True"

subsection \<open>Python's \<^verbatim>\<open>str\<close> of an object\<close>

definition digit_char :: "nat \<Rightarrow> char" where
  "digit_char d = ''0123456789'' ! (d mod 10)"

fun digits :: "nat \<Rightarrow> string" where
  "digits n = (if n < 10 then [digit_char n] else digits (n div 10) @ [digit_char (n mod 10)])"

declare digits.simps [simp del]

text \<open>
  \<^verbatim>\<open>str(value)\<close>. The text of a float is Python's shortest round-trip representation,
  which is not part of the repository: it is the parameter \<open>float_repr\<close>.
\<close>

fun py_str :: "(rat \<Rightarrow> string) \<Rightarrow> pyval \<Rightarrow> string" where
  "py_str float_repr PNone = ''None''"
| "py_str float_repr PNaN = ''nan''"
| "py_str float_repr (PStr s) = s"
| "py_str float_repr (PInt n) = (if n < 0 then CHR ''-'' # digits (nat (- n)) else digits (nat n))"
| "py_str float_repr (PFloat q) = float_repr q"

subsection \<open>The checks\<close>

text \<open>\<^verbatim>\<open>check_completeness(data)\<close>.\<close>

definition check_completeness :: "series \<Rightarrow> completeness_result" where
  "check_completeness data =
     (let missing_count = bool_sum (isna data);
          total_count = int (length data);
          present_count = total_count - missing_count;
          rate = (if 0 < total_count
                  then np_times (np_true_divide present_count total_count) 100
                  else Finite 0)
      in \<lparr> total_values = total_count,
           missing_values = missing_count,
           completeness_rate = py_round2 rate,
           present_values = present_count \<rparr>)"

text \<open>The result dictionary both validity checks build from their counts.\<close>

definition validity_metrics :: "int \<Rightarrow> int \<Rightarrow> int \<Rightarrow> int \<Rightarrow> validity_result" where
  "validity_metrics len_data missing_count valid_count invalid_count =
     \<lparr> total_values = len_data,
       missing_values = missing_count,
       completeness_rate =
         py_round2 (np_times (np_true_divide (len_data - missing_count) len_data) 100),
       valid_values = valid_count,
       invalid_values = invalid_count,
       validity_rate =
         (if 0 < len_data - missing_count
          then py_round2 (np_times (np_true_divide valid_count (len_data - missing_count)) 100)
          else Finite 0) \<rparr>"

text \<open>\<^verbatim>\<open>validate_varchar_detailed(data, max_length)\<close>.\<close>

definition validate_varchar_detailed ::
  "series \<Rightarrow> int \<Rightarrow> pyerror + validity_result \<times> bool option list" where
  "validate_varchar_detailed data max_length =
     (let is_missing = isna data;
          missing_count = bool_sum is_missing
      in case str_accessor data of
           Inl e \<Rightarrow> Inl e
         | Inr strs \<Rightarrow>
             (let string_lengths = map str_len strs;
                  is_valid_length = map (\<lambda>l. nan_le l max_length) string_lengths;
                  validity_results = series_where is_valid_length (map Not is_missing);
                  valid_count = count_eq validity_results True;
                  invalid_count = count_eq validity_results False
              in Inr (validity_metrics (int (length data)) missing_count valid_count invalid_count,
                      validity_results)))"

text \<open>\<^verbatim>\<open>validate_bigint_detailed(data, min_val, max_val)\<close> and its default bounds.\<close>

definition default_min_val :: int where
  "default_min_val = - 9223372036854775808"

definition default_max_val :: int where
  "default_max_val = 9223372036854775807"

definition validate_bigint_detailed ::
  "series \<Rightarrow> int \<Rightarrow> int \<Rightarrow> pyerror + validity_result \<times> bool option list" where
  "validate_bigint_detailed data min_val max_val =
     (let is_missing = isna data;
          missing_count = bool_sum is_missing
      in case map_result (\<lambda>v. object_ge v min_val) data of
           Inl e \<Rightarrow> Inl e
         | Inr ge_min \<Rightarrow>
        (case map_result (\<lambda>v. object_le v max_val) data of
           Inl e \<Rightarrow> Inl e
         | Inr le_max \<Rightarrow>
        (case map_result astype_float64 data of
           Inl e \<Rightarrow> Inl e
         | Inr floats \<Rightarrow>
             (let is_within_range = map (\<lambda>(a, b). a \<and> b) (zip ge_min le_max);
                  is_integer = map is_integer_or_missing floats;
                  is_valid = map (\<lambda>(a, b). a \<and> b) (zip is_within_range is_integer);
                  validity_results = series_where is_valid (map Not is_missing);
                  valid_count = count_eq validity_results True;
                  invalid_count = count_eq validity_results False
              in Inr (validity_metrics (int (length data)) missing_count valid_count invalid_count,
                      validity_results)))))"

definition validate_bigint_default ::
  "series \<Rightarrow> pyerror + validity_result \<times> bool option list" where
  "validate_bigint_default data = validate_bigint_detailed data default_min_val default_max_val"

text \<open>
  \<^verbatim>\<open>validate_bigint_detailed\<close> on a Series of dtype \<^verbatim>\<open>float64\<close>, whose elements are
  \<^verbatim>\<open>numpy.float64\<close> values. Only \<^verbatim>\<open>nan\<close> is missing. The comparisons of step 2 run in
  float64: numpy converts the int bound (one within the \<^verbatim>\<open>int64\<close> range, as the defaults
  are) to the nearest float64 and compares the element with that; a comparison with
  \<^verbatim>\<open>nan\<close> is \<^verbatim>\<open>False\<close>. Step 3 converts nothing, and \<^verbatim>\<open>is_integer()\<close> is \<^verbatim>\<open>False\<close>
  of an infinity. No step raises.
\<close>

fun f64_isna :: "npfloat \<Rightarrow> bool" where
  "f64_isna NotANumber = True"
| "f64_isna _ = False"

fun f64_ge :: "npfloat \<Rightarrow> rat \<Rightarrow> bool" where
  "f64_ge (Finite q) b = (b \<le> q)"
| "f64_ge PosInf b = True"
| "f64_ge NegInf b = False"
| "f64_ge NotANumber b = False"

fun f64_le :: "npfloat \<Rightarrow> rat \<Rightarrow> bool" where
  "f64_le (Finite q) b = (q \<le> b)"
| "f64_le PosInf b = False"
| "f64_le NegInf b = True"
| "f64_le NotANumber b = False"

fun f64_is_integer_or_missing :: "npfloat \<Rightarrow> bool" where
  "f64_is_integer_or_missing (Finite q) = (of_int \<lfloor>q\<rfloor> = q)"
| "f64_is_integer_or_missing PosInf = False"
| "f64_is_integer_or_missing NegInf = False"
| "f64_is_integer_or_missing NotANumber = True"

definition validate_bigint_float64 ::
  "npfloat list \<Rightarrow> int \<Rightarrow> int \<Rightarrow> validity_result \<times> bool option list" where
  "validate_bigint_float64 data min_val max_val =
     (let is_missing = map f64_isna data;
          missing_count = bool_sum is_missing;
          ge_min = map (\<lambda>x. f64_ge x (fl (of_int min_val))) data;
          le_max = map (\<lambda>x. f64_le x (fl (of_int max_val))) data;
          is_within_range = map (\<lambda>(a, b). a \<and> b) (zip ge_min le_max);
          is_integer = map f64_is_integer_or_missing data;
          is_valid = map (\<lambda>(a, b). a \<and> b) (zip is_within_range is_integer);
          validity_results = series_where is_valid (map Not is_missing);
          valid_count = count_eq validity_results True;
          invalid_count = count_eq validity_results False
      in (validity_metrics (int (length data)) missing_count valid_count invalid_count,
          validity_results))"

text \<open>\<^verbatim>\<open>your_original_style(data, max_len)\<close>: the loop appends one verdict per value.\<close>

fun original_loop :: "(rat \<Rightarrow> string) \<Rightarrow> int \<Rightarrow> series \<Rightarrow> bool list \<Rightarrow> bool list" where
  "original_loop float_repr max_len [] temp_list = temp_list"
| "original_loop float_repr max_len (value # rest) temp_list =
     (let res = (if pd_isna value then False
                 else if int (length (py_str float_repr value)) \<le> max_len then True
                 else False)
      in original_loop float_repr max_len rest (temp_list @ [res]))"

definition your_original_style :: "(rat \<Rightarrow> string) \<Rightarrow> series \<Rightarrow> int \<Rightarrow> bool list" where
  "your_original_style float_repr data max_len = original_loop float_repr max_len data []"


subsection \<open>The columns on which the validity checks return\<close>

text \<open>
  A column the \<^verbatim>\<open>.str\<close> accessor accepts, among the columns of strings, ints, floats and
  missing values: it holds a string, or nothing but missing values.
\<close>

definition str_usable :: "series \<Rightarrow> bool" where
  "str_usable data = (list_ex is_str data \<or> list_all pd_isna data)"

text \<open>
  A column of numbers and missing values, every int of which has a float64 value: no
  comparison and no conversion of the integer check raises on it.
\<close>

fun numeric_value :: "pyval \<Rightarrow> bool" where
  "numeric_value (PStr s) = False"
| "numeric_value (PInt n) = (\<bar>n\<bar> < float_max_int)"
| "numeric_value _ = True"

definition numeric_column :: "series \<Rightarrow> bool" where
  "numeric_column data = list_all numeric_value data"

text \<open>
  What the integer check computes for one value before the missing values are blanked:
  the two comparisons of step 2 and the integer test of step 3.
\<close>

fun in_bounds :: "pyval \<Rightarrow> int \<Rightarrow> int \<Rightarrow> bool" where
  "in_bounds (PInt n) lo hi = (lo \<le> n \<and> n \<le> hi)"
| "in_bounds (PFloat q) lo hi = (of_int lo \<le> q \<and> q \<le> of_int hi \<and> of_int \<lfloor>q\<rfloor> = q)"
| "in_bounds _ lo hi = False"

section \<open>Properties of the operations\<close>

lemma round_half_even_nearest: "\<bar>of_int (round_half_even x) - x\<bar> \<le> 1 / 2"
proof -
  define f where "f = \<lfloor>x\<rfloor>"
  define d where "d = x - of_int f"
  have d: "0 \<le> d" "d < 1"
    unfolding d_def f_def by linarith+
  have x: "x = of_int f + d"
    by (simp add: d_def)
  have r: "round_half_even x = (if d < 1 / 2 then f else if 1 / 2 < d then f + 1
                                else if even f then f else f + 1)"
    by (simp add: round_half_even_def Let_def f_def d_def)
  have "\<bar>of_int (round_half_even x) - (of_int f + d)\<bar> \<le> 1 / 2"
    using d unfolding r by (auto simp: abs_le_iff)
  then show ?thesis
    using x by simp
qed

lemma bool_sum_nonneg: "0 \<le> bool_sum bs"
  by (simp add: bool_sum_def)

lemma bool_sum_isna_le: "bool_sum (isna data) \<le> int (length data)"
  unfolding bool_sum_def isna_def by (simp add: order_trans [OF length_filter_le])

lemma length_series_where: "length (series_where vs cs) = min (length vs) (length cs)"
  by (simp add: series_where_def)

lemma series_where_nth:
  "i < length vs \<Longrightarrow> i < length cs \<Longrightarrow>
   series_where vs cs ! i = (if cs ! i then Some (vs ! i) else None)"
  by (simp add: series_where_def)

lemma series_where_Cons:
  "series_where (v # vs) (c # cs) = (if c then Some v else None) # series_where vs cs"
  by (simp add: series_where_def)

lemma series_where_Nil: "series_where [] cs = []"
  by (simp add: series_where_def)

lemma count_eq_Cons:
  "count_eq (r # rs) b = (if r = Some b then 1 else 0) + count_eq rs b"
  by (simp add: count_eq_def bool_sum_def)

lemma count_eq_Nil: "count_eq [] b = 0"
  by (simp add: count_eq_def bool_sum_def)

lemma isna_Cons: "isna (x # xs) = pd_isna x # isna xs"
  by (simp add: isna_def)

lemma bool_sum_Cons: "bool_sum (b # bs) = (if b then 1 else 0) + bool_sum bs"
  by (simp add: bool_sum_def)

lemma counts_partition:
  "length vs = length data \<Longrightarrow>
   count_eq (series_where vs (map Not (isna data))) True
   + count_eq (series_where vs (map Not (isna data))) False
   = int (length data) - bool_sum (isna data)"
proof (induction vs data rule: list_induct2)
  case Nil
  then show ?case by (simp add: series_where_Nil count_eq_Nil isna_def bool_sum_def)
next
  case (Cons v vs x data)
  then show ?case
    by (cases v) (simp_all add: series_where_Cons count_eq_Cons isna_Cons bool_sum_Cons)
qed

lemma no_str_numeric:
  "\<not> list_ex is_str data \<Longrightarrow>
   list_all (\<lambda>v. is_integer_object v \<or> is_float_object v \<or> pd_isna v) data"
proof (induction data)
  case Nil
  then show ?case by simp
next
  case (Cons x data)
  then show ?case by (cases x) simp_all
qed

lemma str_not_numeric:
  "list_ex is_str data \<Longrightarrow>
   \<not> list_all (\<lambda>v. is_integer_object v \<or> is_float_object v \<or> pd_isna v) data"
proof (induction data)
  case Nil
  then show ?case by simp
next
  case (Cons x data)
  then show ?case by (cases x) auto
qed

lemma filter_present_Nil: "filter (\<lambda>v. \<not> pd_isna v) data = [] \<longleftrightarrow> list_all pd_isna data"
  by (induction data) auto

lemma filter_present_Cons:
  "filter (\<lambda>v. \<not> pd_isna v) data = x # xs \<Longrightarrow> x \<in> set data \<and> \<not> pd_isna x"
proof -
  assume "filter (\<lambda>v. \<not> pd_isna v) data = x # xs"
  then have "x \<in> set (filter (\<lambda>v. \<not> pd_isna v) data)"
    by simp
  then show ?thesis
    by simp
qed

lemma infer_dtype_allowed: "infer_dtype data \<in> set allowed_types \<longleftrightarrow> str_usable data"
proof (cases "filter (\<lambda>v. \<not> pd_isna v) data")
  case Nil
  then have "list_all pd_isna data"
    by (simp add: filter_present_Nil)
  then show ?thesis
    by (simp add: infer_dtype_def allowed_types_def str_usable_def Nil)
next
  case (Cons val rest)
  then have present: "val \<in> set data" "\<not> pd_isna val"
    using filter_present_Cons by blast+
  then have not_all: "\<not> list_all pd_isna data"
    by (auto simp: list_all_iff)
  show ?thesis
  proof (cases "list_ex is_str data")
    case True
    note str_not_numeric [OF True]
    moreover have "\<not> list_all (\<lambda>v. is_integer_object v \<or> pd_isna v) data"
      using True by (induction data) (auto elim: is_str.elims)
    moreover have "\<not> list_all is_float_object data"
      using True by (induction data) (auto elim: is_str.elims)
    ultimately show ?thesis
      using True Cons present
      by (cases val)
         (simp_all add: infer_dtype_def allowed_types_def str_usable_def mixed_kind_def)
  next
    case False
    note num = no_str_numeric [OF False]
    have "\<not> is_str val"
      using False present by (auto simp: list_ex_iff)
    then show ?thesis
      using False Cons present num not_all
      by (cases val)
         (simp_all add: infer_dtype_def allowed_types_def str_usable_def integer_float_kind_def)
  qed
qed

lemma validate_varchar_Inr:
  "validate_varchar_detailed data ml = Inr (r, v) \<longleftrightarrow>
     str_usable data
     \<and> v = series_where (map (\<lambda>x. nan_le (str_len x) ml) data) (map Not (isna data))
     \<and> r = validity_metrics (int (length data)) (bool_sum (isna data))
              (count_eq v True) (count_eq v False)"
  by (auto simp: validate_varchar_detailed_def str_accessor_def infer_dtype_allowed Let_def comp_def)


lemma map_result_Inr:
  "(\<And>x. x \<in> set xs \<Longrightarrow> \<not> isl (f x)) \<Longrightarrow> map_result f xs = Inr (map (\<lambda>x. projr (f x)) xs)"
proof (induction xs)
  case Nil
  then show ?case by simp
next
  case (Cons a xs)
  then have "\<not> isl (f a)" by simp
  then obtain y where "f a = Inr y" by (cases "f a") simp_all
  then show ?case using Cons by simp
qed


lemma numeric_value_total:
  "numeric_value x \<Longrightarrow>
   \<not> isl (object_ge x lo) \<and> \<not> isl (object_le x hi) \<and> \<not> isl (astype_float64 x)"
  by (cases x) simp_all

lemma numeric_value_verdict:
  "numeric_value x \<Longrightarrow>
   (projr (object_ge x lo) \<and> projr (object_le x hi)
    \<and> is_integer_or_missing (projr (astype_float64 x))) = in_bounds x lo hi"
  by (cases x) auto

lemma zip_map_same: "zip (map f xs) (map g xs) = map (\<lambda>x. (f x, g x)) xs"
  by (induction xs) simp_all

lemma validate_bigint_numeric:
  assumes "numeric_column data"
  shows "validate_bigint_detailed data lo hi =
           Inr (validity_metrics (int (length data)) (bool_sum (isna data))
                  (count_eq (series_where (map (\<lambda>x. in_bounds x lo hi) data) (map Not (isna data))) True)
                  (count_eq (series_where (map (\<lambda>x. in_bounds x lo hi) data) (map Not (isna data))) False),
                series_where (map (\<lambda>x. in_bounds x lo hi) data) (map Not (isna data)))"
proof -
  have num: "\<And>x. x \<in> set data \<Longrightarrow> numeric_value x"
    using assms by (simp add: numeric_column_def list_all_iff)
  have ge: "map_result (\<lambda>v. object_ge v lo) data = Inr (map (\<lambda>x. projr (object_ge x lo)) data)"
    by (rule map_result_Inr) (simp add: num numeric_value_total)
  have le: "map_result (\<lambda>v. object_le v hi) data = Inr (map (\<lambda>x. projr (object_le x hi)) data)"
    by (rule map_result_Inr) (simp add: num numeric_value_total)
  have fl: "map_result astype_float64 data = Inr (map (\<lambda>x. projr (astype_float64 x)) data)"
    by (rule map_result_Inr) (simp add: num numeric_value_total)
  have valid:
    "map (\<lambda>(a, b). a \<and> b)
       (zip (map (\<lambda>(a, b). a \<and> b)
               (zip (map (\<lambda>x. projr (object_ge x lo)) data) (map (\<lambda>x. projr (object_le x hi)) data)))
            (map is_integer_or_missing (map (\<lambda>x. projr (astype_float64 x)) data)))
     = map (\<lambda>x. in_bounds x lo hi) data"
    using num by (simp add: zip_map_same comp_def numeric_value_verdict)
  show ?thesis
    unfolding validate_bigint_detailed_def Let_def ge le fl sum.case valid ..
qed



lemma bitlen_powi_bounds:
  assumes "0 < p"
  shows "2 powi (bitlen p - 1) \<le> (of_int p :: rat)" and "(of_int p :: rat) < 2 powi bitlen p"
proof -
  have b: "2 ^ nat (bitlen p - 1) \<le> p" "p < 2 ^ nat (bitlen p)"
    using bitlen_bounds [OF assms] by simp_all
  have one: "1 \<le> bitlen p"
    using assms by (auto simp: bitlen_alt_def)
  have "(2 :: rat) powi (bitlen p - 1) = of_int (2 ^ nat (bitlen p - 1))"
    using one by (simp add: power_int_nonneg_exp)
  also have "\<dots> \<le> of_int p"
    using b(1) by (simp only: of_int_le_iff)
  finally show "2 powi (bitlen p - 1) \<le> (of_int p :: rat)" .
  have "(of_int p :: rat) < of_int (2 ^ nat (bitlen p))"
    using b(2) by (simp only: of_int_less_iff)
  also have "\<dots> = 2 powi bitlen p"
    using one by (simp add: power_int_nonneg_exp)
  finally show "(of_int p :: rat) < 2 powi bitlen p" .
qed

lemma float_exponent_bounds:
  assumes "x \<noteq> 0"
  shows "2 powi float_exponent x \<le> \<bar>x\<bar>" and "\<bar>x\<bar> < 2 powi (float_exponent x + 1)"
proof -
  obtain p q where pq: "quotient_of \<bar>x\<bar> = (p, q)"
    by (cases "quotient_of \<bar>x\<bar>")
  then have q: "0 < q" and x: "\<bar>x\<bar> = of_int p / of_int q"
    by (simp_all add: quotient_of_denom_pos quotient_of_div)
  have "0 < \<bar>x\<bar>"
    using assms by simp
  then have p: "0 < p"
    using q unfolding x by (simp add: zero_less_divide_iff)
  define n where "n = bitlen p"
  define m where "m = bitlen q"
  note pn = bitlen_powi_bounds [OF p, folded n_def]
  note qm = bitlen_powi_bounds [OF q, folded m_def]
  have qpos: "(0 :: rat) < of_int q" and ppos: "(0 :: rat) < of_int p"
    using q p by simp_all
  have "n - m - 1 = (n - 1) - m"
    by simp
  then have "(2 :: rat) powi (n - m - 1) = 2 powi (n - 1) / 2 powi m"
    by (simp only: power_int_diff [of "2 :: rat" "n - 1" m, simplified])
  also have "\<dots> \<le> of_int p / 2 powi m"
    using pn(1) by (simp add: divide_right_mono)
  also have "\<dots> < of_int p / of_int q"
    using qm(2) qpos ppos by (simp add: divide_strict_left_mono)
  finally have lo: "2 powi (n - m - 1) < \<bar>x\<bar>"
    by (simp add: x)
  have "\<bar>x\<bar> < 2 powi n / of_int q"
    unfolding x using pn(2) qpos by (simp add: divide_strict_right_mono)
  also have "\<dots> \<le> 2 powi n / 2 powi (m - 1)"
    using qm(1) qpos by (simp add: divide_left_mono)
  also have "\<dots> = 2 powi (n - (m - 1))"
    by (simp only: power_int_diff [of "2 :: rat" n "m - 1", simplified])
  also have "n - (m - 1) = n - m + 1"
    by simp
  finally have hi: "\<bar>x\<bar> < 2 powi (n - m + 1)" .
  have e: "float_exponent x = (if \<bar>x\<bar> < 2 powi (n - m) then n - m - 1 else n - m)"
    by (simp add: float_exponent_def pq n_def m_def Let_def)
  show "2 powi float_exponent x \<le> \<bar>x\<bar>"
    using lo by (simp add: e)
  show "\<bar>x\<bar> < 2 powi (float_exponent x + 1)"
    using hi by (simp add: e)
qed

lemma fl_error: "\<bar>fl x - x\<bar> \<le> \<bar>x\<bar> / 2 ^ 53"
proof (cases "x = 0")
  case True
  then show ?thesis by (simp add: fl_def)
next
  case False
  define ulp :: rat where "ulp = 2 powi (float_exponent x - 52)"
  have ulp: "0 < ulp"
    by (simp add: ulp_def)
  have "fl x - x = (of_int (round_half_even (x / ulp)) - x / ulp) * ulp"
    using False ulp by (simp add: fl_def ulp_def algebra_simps)
  then have "\<bar>fl x - x\<bar> = \<bar>of_int (round_half_even (x / ulp)) - x / ulp\<bar> * ulp"
    using ulp by (simp add: abs_mult)
  also have "\<dots> \<le> (1 / 2) * ulp"
    using round_half_even_nearest [of "x / ulp"] ulp by (simp add: mult_right_mono)
  also have "\<dots> = 2 powi float_exponent x / 2 ^ 53"
    by (simp add: ulp_def power_int_diff)
  also have "\<dots> \<le> \<bar>x\<bar> / 2 ^ 53"
    using float_exponent_bounds(1) [OF False] by (simp add: divide_right_mono)
  finally show ?thesis .
qed

lemma fl_error_le: "\<bar>z\<bar> \<le> c \<Longrightarrow> \<bar>fl z - z\<bar> \<le> c / 2 ^ 53"
proof -
  assume "\<bar>z\<bar> \<le> c"
  then have "\<bar>z\<bar> / 2 ^ 53 \<le> c / 2 ^ 53"
    by (simp add: divide_right_mono)
  with fl_error [of z] show ?thesis
    by linarith
qed

lemma ratio_accuracy:
  fixes a b :: int
  assumes a: "0 \<le> a" "a \<le> b" and b: "0 < b"
  shows "\<bar>fl (of_int (round_half_even (fl (fl (fl (fl (of_int a) / fl (of_int b)) * 100) * 100))) / 100)
          - of_int a / of_int b * 100\<bar> \<le> 1 / 200 + 1 / 10 ^ 12"
proof -
  define u :: rat where "u = 1 / 2 ^ 53"
  define A :: rat where "A = of_int a"
  define B :: rat where "B = of_int b"
  define r where "r = A / B"
  have u: "0 < u" "u \<le> 1 / 1000000"
    by (simp_all add: u_def)
  have AB: "0 \<le> A" "A \<le> B" "0 < B"
    using a b by (simp_all add: A_def B_def)
  have r: "0 \<le> r" "r \<le> 1" "A = r * B"
    using AB by (simp_all add: r_def)
  define a' where "a' = fl A"
  define b' where "b' = fl B"
  have ea: "\<bar>a' - A\<bar> \<le> A * u"
    using fl_error [of A] AB by (simp add: a'_def u_def)
  have eb: "\<bar>b' - B\<bar> \<le> B * u"
    using fl_error [of B] AB by (simp add: b'_def u_def)
  have uB: "B * u \<le> B / 1000000"
    using u AB by (simp add: u_def)
  have b'pos: "0 < b'"
    using eb AB uB by linarith
  have "B * (1 - u) = B - B * u"
    by (simp add: algebra_simps)
  then have b'lo: "B * (1 - u) \<le> b'"
    using eb by linarith
  have ruB: "r * (B * u) \<le> B * u"
    using r AB u by (simp add: mult_left_le_one_le)
  have "a' - r * b' = (a' - A) - r * (b' - B)"
    using r by (simp add: algebra_simps)
  moreover have "\<bar>(a' - A) - r * (b' - B)\<bar> \<le> \<bar>a' - A\<bar> + \<bar>r * (b' - B)\<bar>"
    by (rule abs_triangle_ineq4)
  moreover have "\<bar>r * (b' - B)\<bar> = r * \<bar>b' - B\<bar>"
    using r by (simp add: abs_mult)
  ultimately have "\<bar>a' - r * b'\<bar> \<le> \<bar>a' - A\<bar> + r * \<bar>b' - B\<bar>"
    by simp
  also have "\<dots> \<le> A * u + r * (B * u)"
  proof -
    have "r * \<bar>b' - B\<bar> \<le> r * (B * u)"
      using eb r(1) by (rule mult_left_mono)
    then show ?thesis
      using ea by linarith
  qed
  also have "\<dots> = 2 * (r * (B * u))"
    unfolding r(3) by simp
  also have "\<dots> \<le> 3 * u * (B * (1 - u))"
  proof -
    have "2 * r \<le> 3 * (1 - u)"
      using r u by simp
    then have "2 * r * (B * u) \<le> 3 * (1 - u) * (B * u)"
      using AB u by (simp add: mult_right_mono)
    then show ?thesis
      by (simp add: algebra_simps)
  qed
  also have "\<dots> \<le> 3 * u * b'"
    using b'lo u by (simp add: mult_left_mono)
  finally have "\<bar>a' - r * b'\<bar> \<le> 3 * u * b'" .
  then have "\<bar>(a' - r * b') / b'\<bar> \<le> 3 * u"
    using b'pos by (simp add: abs_divide pos_divide_le_eq)
  then have q0: "\<bar>a' / b' - r\<bar> \<le> 3 * u"
    using b'pos by (simp add: diff_divide_distrib)
  define q1 where "q1 = fl (a' / b')"
  have "\<bar>a' / b'\<bar> \<le> 2"
    using q0 r u by linarith
  then have "\<bar>q1 - a' / b'\<bar> \<le> 2 * u"
    using fl_error_le [of "a' / b'" 2] by (simp add: q1_def u_def)
  then have q1: "\<bar>q1 - r\<bar> \<le> 5 * u"
    using q0 by linarith
  define x2 where "x2 = fl (q1 * 100)"
  have "\<bar>q1 * 100\<bar> \<le> 200"
    using q1 r u by linarith
  then have "\<bar>x2 - q1 * 100\<bar> \<le> 200 * u"
    using fl_error_le [of "q1 * 100" 200] by (simp add: x2_def u_def)
  then have x2: "\<bar>x2 - r * 100\<bar> \<le> 700 * u"
    using q1 by linarith
  define y where "y = fl (x2 * 100)"
  have "\<bar>x2 * 100\<bar> \<le> 10100"
    using x2 r u by linarith
  then have "\<bar>y - x2 * 100\<bar> \<le> 10100 * u"
    using fl_error_le [of "x2 * 100" 10100] by (simp add: y_def u_def)
  then have y: "\<bar>y - r * 10000\<bar> \<le> 80100 * u"
    using x2 by linarith
  define k :: rat where "k = of_int (round_half_even y)"
  have k: "\<bar>k - y\<bar> \<le> 1 / 2"
    unfolding k_def by (rule round_half_even_nearest)
  have "\<bar>k / 100\<bar> \<le> 101"
    using k y r u by linarith
  then have res: "\<bar>fl (k / 100) - k / 100\<bar> \<le> 101 * u"
    using fl_error_le [of "k / 100" 101] by (simp add: u_def)
  have "\<bar>fl (k / 100) - r * 100\<bar> \<le> 1 / 200 + 902 * u"
    using res k y by linarith
  moreover have "902 * u \<le> 1 / 10 ^ 12"
    by (simp add: u_def)
  ultimately have "\<bar>fl (k / 100) - r * 100\<bar> \<le> 1 / 200 + 1 / 10 ^ 12"
    by linarith
  then show ?thesis
    unfolding k_def y_def x2_def q1_def a'_def b'_def r_def A_def B_def .
qed

lemma fl_zero: "fl 0 = 0"
  by (simp add: fl_def)

lemma py_round2_zero: "py_round2 (Finite 0) = Finite 0"
  by (simp add: py_round2_def fl_zero round_half_even_def)

lemma rate_accuracy:
  assumes "0 \<le> a" "a \<le> b" "0 < b"
  shows "\<exists>y. py_round2 (np_times (np_true_divide a b) 100) = Finite y
           \<and> \<bar>y - of_int a / of_int b * 100\<bar> \<le> 1 / 200 + 1 / 10 ^ 12"
  using ratio_accuracy [OF assms] assms(3)
  by (simp add: np_true_divide_def np_times_def py_round2_def)

lemma validity_metrics_fields:
  "total_values (validity_metrics n m a b) = n"
  "missing_values (validity_metrics n m a b) = m"
  "valid_values (validity_metrics n m a b) = a"
  "invalid_values (validity_metrics n m a b) = b"
  by (simp_all add: validity_metrics_def)

lemma validity_metrics_rate:
  "validity_rate (validity_metrics n m a b) =
     (if 0 < n - m then py_round2 (np_times (np_true_divide a (n - m)) 100) else Finite 0)"
  by (simp add: validity_metrics_def)

lemma validate_varchar_usable:
  assumes "str_usable data"
  shows "validate_varchar_detailed data ml =
           Inr (validity_metrics (int (length data)) (bool_sum (isna data))
                  (count_eq (series_where (map (\<lambda>x. nan_le (str_len x) ml) data) (map Not (isna data))) True)
                  (count_eq (series_where (map (\<lambda>x. nan_le (str_len x) ml) data) (map Not (isna data))) False),
                series_where (map (\<lambda>x. nan_le (str_len x) ml) data) (map Not (isna data)))"
  using assms by (simp add: validate_varchar_Inr)

lemma length_verdicts:
  "length (series_where (map f data) (map Not (isna data))) = length data"
  by (simp add: length_series_where isna_def)

lemma verdict_nth:
  "i < length data \<Longrightarrow>
   series_where (map f data) (map Not (isna data)) ! i
     = (if pd_isna (data ! i) then None else Some (f (data ! i)))"
  by (simp add: series_where_nth isna_def)

lemma check_completeness_missing:
  "missing_values (check_completeness data) = bool_sum (isna data)"
  by (simp add: check_completeness_def Let_def)

lemma count_missing_verdicts:
  "bool_sum (map (\<lambda>r. r = None) (series_where (map f data) (map Not (isna data))))
     = bool_sum (isna data)"
proof (induction data)
  case Nil
  then show ?case by (simp add: series_where_Nil isna_def)
next
  case (Cons x data)
  then show ?case
    by (simp add: series_where_Cons isna_Cons bool_sum_Cons)
qed

lemma isna_nth: "i < length data \<Longrightarrow> isna data ! i = pd_isna (data ! i)"
  by (simp add: isna_def)

lemma original_loop_map:
  "original_loop float_repr max_len data temp_list
     = temp_list @ map (\<lambda>value. \<not> pd_isna value
                          \<and> int (length (py_str float_repr value)) \<le> max_len) data"
  by (induction data arbitrary: temp_list) (simp_all add: Let_def)

lemma your_original_style_map:
  "your_original_style float_repr data max_len
     = map (\<lambda>value. \<not> pd_isna value \<and> int (length (py_str float_repr value)) \<le> max_len) data"
  by (simp add: your_original_style_def original_loop_map)

lemma your_original_style_no_float:
  "\<forall>x \<in> set data. \<forall>q. x \<noteq> PFloat q \<Longrightarrow>
   your_original_style f data max_len = your_original_style g data max_len"
proof -
  assume nf: "\<forall>x \<in> set data. \<forall>q. x \<noteq> PFloat q"
  have "py_str f x = py_str g x" if "x \<in> set data" for x
    by (cases x) (use that nf in auto)
  then show ?thesis
    by (simp add: your_original_style_map cong: map_cong)
qed



lemma bool_sum_isna_count: "bool_sum (isna data) = int (length (filter pd_isna data))"
  by (simp add: bool_sum_def isna_def comp_def)

lemma count_eq_filter: "count_eq v b = int (length (filter (\<lambda>x. x = Some b) v))"
  by (simp add: count_eq_def bool_sum_def comp_def)

lemma present_count:
  "int (length data) - bool_sum (isna data) = int (length (filter (\<lambda>x. \<not> pd_isna x) data))"
  using sum_length_filter_compl [of pd_isna data] by (simp add: bool_sum_isna_count)

lemma count_eq_nonneg: "0 \<le> count_eq v b"
  by (simp add: count_eq_filter)

lemma valid_le_present:
  "length vs = length data \<Longrightarrow>
   count_eq (series_where vs (map Not (isna data))) True \<le> int (length data) - bool_sum (isna data)"
  using counts_partition [of vs data]
    count_eq_nonneg [of "series_where vs (map Not (isna data))" False]
  by linarith

lemma validity_metrics_accuracy:
  assumes "0 \<le> a" "a \<le> n - m" "0 < n - m"
  shows "\<exists>y. validity_rate (validity_metrics n m a b) = Finite y
           \<and> \<bar>y - of_int a / of_int (n - m) * 100\<bar> \<le> 1 / 200 + 1 / 10 ^ 12"
  using rate_accuracy [OF assms] assms(3) by (simp add: validity_metrics_rate)

lemma metrics_rate_props:
  assumes r: "r = validity_metrics (int (length data)) (bool_sum (isna data))
                    (count_eq v True) (count_eq v False)"
    and v: "v = series_where vs (map Not (isna data))"
    and len: "length vs = length data"
  shows "length v = length data
         \<and> total_values r = int (length data)
         \<and> missing_values r = int (length (filter pd_isna data))
         \<and> valid_values r = int (length (filter (\<lambda>x. x = Some True) v))
         \<and> 0 \<le> total_values r - missing_values r
         \<and> validity_rate r =
             (if 0 < total_values r - missing_values r
              then py_round2 (np_times (np_true_divide (valid_values r)
                                          (total_values r - missing_values r)) 100)
              else Finite 0)
         \<and> (0 < total_values r - missing_values r \<longrightarrow>
               (\<exists>y. validity_rate r = Finite y
                  \<and> \<bar>y - of_int (valid_values r) / of_int (total_values r - missing_values r) * 100\<bar>
                      \<le> 1 / 200 + 1 / 10 ^ 12))"
proof -
  have a: "0 \<le> count_eq v True" "count_eq v True \<le> int (length data) - bool_sum (isna data)"
    using valid_le_present [OF len] by (simp_all add: v count_eq_nonneg)
  have f: "total_values r = int (length data)" "missing_values r = bool_sum (isna data)"
    "valid_values r = count_eq v True"
    by (simp_all add: r validity_metrics_fields)
  have rate: "validity_rate r =
      (if 0 < int (length data) - bool_sum (isna data)
       then py_round2 (np_times (np_true_divide (count_eq v True)
                                   (int (length data) - bool_sum (isna data))) 100)
       else Finite 0)"
    unfolding r by (rule validity_metrics_rate)
  have acc: "\<exists>y. validity_rate r = Finite y
      \<and> \<bar>y - of_int (count_eq v True) / of_int (int (length data) - bool_sum (isna data)) * 100\<bar>
          \<le> 1 / 200 + 1 / 10 ^ 12" if "0 < int (length data) - bool_sum (isna data)"
    unfolding r using a that by (rule validity_metrics_accuracy)
  have "length v = length data"
    using len by (simp add: v length_series_where isna_def)
  moreover have "0 \<le> total_values r - missing_values r"
    using bool_sum_isna_le [of data] by (simp add: f)
  ultimately show ?thesis
    using rate acc unfolding f by (simp add: bool_sum_isna_count [symmetric] count_eq_filter [symmetric])
qed

section \<open>Properties of the checks\<close>

subsection \<open>Missing values and verdicts\<close>

text \<open>
  C1: whenever a validity check returns, its validity Series has one entry per position,
  the entry is missing (\<open>None\<close>) exactly where the mask \<open>data.isna()\<close> of
  \<open>check_completeness\<close> is set and is \<open>True\<close> (valid) or \<open>False\<close> (invalid) exactly where
  the value is present, and the number of missing entries is the \<open>missing_values\<close> that
  \<open>check_completeness\<close> reports. The string check returns on every column the \<^verbatim>\<open>.str\<close>
  accessor accepts, the integer check on every numeric column.
\<close>

theorem missing_mask_shared:
  "(str_usable data \<longrightarrow>
      (\<exists>r v. validate_varchar_detailed data max_length = Inr (r, v)
         \<and> length v = length data
         \<and> (\<forall>i < length data.
               (v ! i = None) = (isna data ! i)
               \<and> (v ! i = Some True \<or> v ! i = Some False) = (\<not> isna data ! i))
         \<and> bool_sum (map (\<lambda>r. r = None) v) = missing_values (check_completeness data)
         \<and> missing_values r = missing_values (check_completeness data)))
   \<and> (numeric_column data \<longrightarrow>
      (\<exists>r v. validate_bigint_detailed data min_val max_val = Inr (r, v)
         \<and> length v = length data
         \<and> (\<forall>i < length data.
               (v ! i = None) = (isna data ! i)
               \<and> (v ! i = Some True \<or> v ! i = Some False) = (\<not> isna data ! i))
         \<and> bool_sum (map (\<lambda>r. r = None) v) = missing_values (check_completeness data)
         \<and> missing_values r = missing_values (check_completeness data)))"
proof (intro conjI impI)
  assume "str_usable data"
  then show "\<exists>r v. validate_varchar_detailed data max_length = Inr (r, v)
         \<and> length v = length data
         \<and> (\<forall>i < length data.
               (v ! i = None) = (isna data ! i)
               \<and> (v ! i = Some True \<or> v ! i = Some False) = (\<not> isna data ! i))
         \<and> bool_sum (map (\<lambda>r. r = None) v) = missing_values (check_completeness data)
         \<and> missing_values r = missing_values (check_completeness data)"
    by (simp add: validate_varchar_usable length_verdicts verdict_nth count_missing_verdicts
        check_completeness_missing validity_metrics_fields isna_nth)
next
  assume "numeric_column data"
  then show "\<exists>r v. validate_bigint_detailed data min_val max_val = Inr (r, v)
         \<and> length v = length data
         \<and> (\<forall>i < length data.
               (v ! i = None) = (isna data ! i)
               \<and> (v ! i = Some True \<or> v ! i = Some False) = (\<not> isna data ! i))
         \<and> bool_sum (map (\<lambda>r. r = None) v) = missing_values (check_completeness data)
         \<and> missing_values r = missing_values (check_completeness data)"
    by (simp add: validate_bigint_numeric length_verdicts verdict_nth count_missing_verdicts
        check_completeness_missing validity_metrics_fields isna_nth)
qed

theorem missing_mask_shared_witness:
  "str_usable [PStr ''abc'', PNone, PStr ''abcdefg'']
   \<and> numeric_column [PInt 42, PNaN, PFloat (85 / 2)]
   \<and> isna [PStr ''abc'', PNone, PStr ''abcdefg''] = [False, True, False]
   \<and> isna [PInt 42, PNaN, PFloat (85 / 2)] = [False, True, False]
   \<and> missing_values (check_completeness [PStr ''abc'', PNone, PStr ''abcdefg'']) = 1
   \<and> missing_values (check_completeness [PInt 42, PNaN, PFloat (85 / 2)]) = 1
   \<and> (\<exists>r v. validate_varchar_detailed [PStr ''abc'', PNone, PStr ''abcdefg''] 5 = Inr (r, v)
         \<and> length v = 3 \<and> v ! 0 \<noteq> None \<and> v ! 1 = None \<and> v ! 2 \<noteq> None
         \<and> bool_sum (map (\<lambda>r. r = None) v) = 1 \<and> missing_values r = 1)
   \<and> (\<exists>r v. validate_bigint_detailed [PInt 42, PNaN, PFloat (85 / 2)] 0 100 = Inr (r, v)
         \<and> length v = 3 \<and> v ! 0 \<noteq> None \<and> v ! 1 = None \<and> v ! 2 \<noteq> None
         \<and> bool_sum (map (\<lambda>r. r = None) v) = 1 \<and> missing_values r = 1)"
proof -
  let ?S = "[PStr ''abc'', PNone, PStr ''abcdefg'']"
  let ?N = "[PInt 42, PNaN, PFloat (85 / 2)]"
  have s: "str_usable ?S"
    by (simp add: str_usable_def)
  have n: "numeric_column ?N"
    by (simp add: numeric_column_def float_max_int_def)
  have m: "isna ?S = [False, True, False]" "isna ?N = [False, True, False]"
    "missing_values (check_completeness ?S) = 1" "missing_values (check_completeness ?N) = 1"
    by (simp_all add: isna_def check_completeness_missing bool_sum_def)
  from missing_mask_shared [of ?S 5 0 100] s
  obtain r v where a: "validate_varchar_detailed ?S 5 = Inr (r, v)" "length v = length ?S"
    "\<forall>i < length ?S. (v ! i = None) = (isna ?S ! i)
         \<and> (v ! i = Some True \<or> v ! i = Some False) = (\<not> isna ?S ! i)"
    "bool_sum (map (\<lambda>r. r = None) v) = missing_values (check_completeness ?S)"
    "missing_values r = missing_values (check_completeness ?S)"
    by blast
  from missing_mask_shared [of ?N 5 0 100] n
  obtain r' v' where b: "validate_bigint_detailed ?N 0 100 = Inr (r', v')" "length v' = length ?N"
    "\<forall>i < length ?N. (v' ! i = None) = (isna ?N ! i)
         \<and> (v' ! i = Some True \<or> v' ! i = Some False) = (\<not> isna ?N ! i)"
    "bool_sum (map (\<lambda>r. r = None) v') = missing_values (check_completeness ?N)"
    "missing_values r' = missing_values (check_completeness ?N)"
    by blast
  have "v ! 0 \<noteq> None \<and> v ! 1 = None \<and> v ! 2 \<noteq> None"
    using a(3) [rule_format, of 0] a(3) [rule_format, of 1] a(3) [rule_format, of 2] m(1)
    by simp
  moreover have "v' ! 0 \<noteq> None \<and> v' ! 1 = None \<and> v' ! 2 \<noteq> None"
    using b(3) [rule_format, of 0] b(3) [rule_format, of 1] b(3) [rule_format, of 2] m(2)
    by simp
  ultimately show ?thesis
    using s n m a(1,2,4,5) b(1,2,4,5) by simp
qed

subsection \<open>Counts\<close>

text \<open>
  C2: for every Series \<open>check_completeness\<close> reports the length as total, the number of
  missing positions as missing and the number of present positions as present, so that
  \<open>missing + present = total\<close>. Whenever a validity check returns (the string check on every
  column the \<^verbatim>\<open>.str\<close> accessor accepts, the integer check on every numeric column), its
  validity Series has an entry for every position, missing exactly at the missing
  positions; total and missing are the length and the number of missing positions, valid and
  invalid are the numbers of \<open>True\<close> and of \<open>False\<close> entries, and together they are the
  number of present positions: \<open>valid + invalid = total - missing\<close>.
\<close>

theorem counts_add_up:
  "total_values (check_completeness data) = int (length data)
   \<and> missing_values (check_completeness data) = int (length (filter pd_isna data))
   \<and> present_values (check_completeness data) = int (length (filter (\<lambda>x. \<not> pd_isna x) data))
   \<and> missing_values (check_completeness data) + present_values (check_completeness data)
       = total_values (check_completeness data)
   \<and> (str_usable data \<longrightarrow>
        (\<exists>r v. validate_varchar_detailed data max_length = Inr (r, v)
           \<and> length v = length data
           \<and> (\<forall>i < length data. (v ! i = None) = pd_isna (data ! i))
           \<and> total_values r = int (length data)
           \<and> missing_values r = int (length (filter pd_isna data))
           \<and> valid_values r = int (length (filter (\<lambda>x. x = Some True) v))
           \<and> invalid_values r = int (length (filter (\<lambda>x. x = Some False) v))
           \<and> valid_values r + invalid_values r = int (length (filter (\<lambda>x. \<not> pd_isna x) data))
           \<and> valid_values r + invalid_values r = total_values r - missing_values r))
   \<and> (numeric_column data \<longrightarrow>
        (\<exists>r v. validate_bigint_detailed data min_val max_val = Inr (r, v)
           \<and> length v = length data
           \<and> (\<forall>i < length data. (v ! i = None) = pd_isna (data ! i))
           \<and> total_values r = int (length data)
           \<and> missing_values r = int (length (filter pd_isna data))
           \<and> valid_values r = int (length (filter (\<lambda>x. x = Some True) v))
           \<and> invalid_values r = int (length (filter (\<lambda>x. x = Some False) v))
           \<and> valid_values r + invalid_values r = int (length (filter (\<lambda>x. \<not> pd_isna x) data))
           \<and> valid_values r + invalid_values r = total_values r - missing_values r))"
proof -
  have cc: "total_values (check_completeness data) = int (length data)"
    "missing_values (check_completeness data) = int (length (filter pd_isna data))"
    "present_values (check_completeness data) = int (length (filter (\<lambda>x. \<not> pd_isna x) data))"
    by (simp_all add: check_completeness_def Let_def bool_sum_isna_count [symmetric] present_count)
  have sum: "missing_values (check_completeness data) + present_values (check_completeness data)
       = total_values (check_completeness data)"
    by (simp add: check_completeness_def Let_def)
  have verdicts:
    "length (series_where (map f data) (map Not (isna data))) = length data
     \<and> (\<forall>i < length data.
           (series_where (map f data) (map Not (isna data)) ! i = None) = pd_isna (data ! i))
     \<and> bool_sum (isna data) = int (length (filter pd_isna data))
     \<and> count_eq (series_where (map f data) (map Not (isna data))) True
         + count_eq (series_where (map f data) (map Not (isna data))) False
         = int (length (filter (\<lambda>x. \<not> pd_isna x) data))
     \<and> count_eq (series_where (map f data) (map Not (isna data))) True
         + count_eq (series_where (map f data) (map Not (isna data))) False
         = int (length data) - int (length (filter pd_isna data))" for f :: "pyval \<Rightarrow> bool"
    using counts_partition [of "map f data" data]
    by (simp add: length_verdicts verdict_nth bool_sum_isna_count [symmetric] present_count)
  show ?thesis
    using cc sum verdicts
    by (simp add: validate_varchar_usable validate_bigint_numeric validity_metrics_fields
        count_eq_filter [symmetric])
qed

theorem counts_add_up_witness:
  "str_usable [PStr ''abc'', PNone, PStr ''abcdefg'', PInt 7]
   \<and> numeric_column [PInt 42, PNaN, PFloat (85 / 2)]
   \<and> total_values (check_completeness [PStr ''abc'', PNone, PStr ''abcdefg'', PInt 7]) = 4
   \<and> missing_values (check_completeness [PStr ''abc'', PNone, PStr ''abcdefg'', PInt 7]) = 1
   \<and> present_values (check_completeness [PStr ''abc'', PNone, PStr ''abcdefg'', PInt 7]) = 3
   \<and> (\<exists>r. validate_varchar_detailed [PStr ''abc'', PNone, PStr ''abcdefg'', PInt 7] 5
            = Inr (r, [Some True, None, Some False, Some False])
          \<and> total_values r = 4 \<and> missing_values r = 1
          \<and> valid_values r = 1 \<and> invalid_values r = 2)
   \<and> (\<exists>r. validate_bigint_detailed [PInt 42, PNaN, PFloat (85 / 2)] 0 100
            = Inr (r, [Some True, None, Some False])
          \<and> total_values r = 3 \<and> missing_values r = 1
          \<and> valid_values r = 1 \<and> invalid_values r = 1)"
proof -
  let ?S = "[PStr ''abc'', PNone, PStr ''abcdefg'', PInt 7]"
  let ?N = "[PInt 42, PNaN, PFloat (85 / 2)]"
  have s: "str_usable ?S" and n: "numeric_column ?N"
    by code_simp+
  have vs: "map_sum id snd (validate_varchar_detailed ?S 5)
              = Inr [Some True, None, Some False, Some False]"
    by code_simp
  have vn: "map_sum id snd (validate_bigint_detailed ?N 0 100) = Inr [Some True, None, Some False]"
    by code_simp
  from counts_add_up [of ?S 5 0 100] s
  obtain r v where a: "validate_varchar_detailed ?S 5 = Inr (r, v)"
    "total_values r = int (length ?S)"
    "missing_values r = int (length (filter pd_isna ?S))"
    "valid_values r = int (length (filter (\<lambda>x. x = Some True) v))"
    "invalid_values r = int (length (filter (\<lambda>x. x = Some False) v))"
    by blast
  from counts_add_up [of ?N 5 0 100] n
  obtain r' v' where b: "validate_bigint_detailed ?N 0 100 = Inr (r', v')"
    "total_values r' = int (length ?N)"
    "missing_values r' = int (length (filter pd_isna ?N))"
    "valid_values r' = int (length (filter (\<lambda>x. x = Some True) v'))"
    "invalid_values r' = int (length (filter (\<lambda>x. x = Some False) v'))"
    by blast
  have v: "v = [Some True, None, Some False, Some False]"
    using vs a(1) by simp
  have v': "v' = [Some True, None, Some False]"
    using vn b(1) by simp
  show ?thesis
    using s n counts_add_up [of ?S 5 0 100] a b unfolding v v' by simp
qed

subsection \<open>The validity rate\<close>

text \<open>
  C3: whenever a validity check returns, its result reports the length as total, the
  number of missing positions as missing and the number of \<open>True\<close> entries of its validity
  Series as valid, and its \<open>validity_rate\<close> is \<open>round(valid / (total - missing) * 100, 2)\<close>,
  computed in float64, when \<open>total - missing > 0\<close>, and 0 when \<open>total - missing\<close> is 0. The
  computed rate differs from the exact percentage by no more than half a unit of the second
  decimal place (and the rounding error of float64, below \<open>10\<^sup>-\<^sup>1\<^sup>2\<close>).
\<close>

theorem validity_rate_formula:
  "(str_usable data \<longrightarrow>
      (\<exists>r v. validate_varchar_detailed data max_length = Inr (r, v)
         \<and> length v = length data
         \<and> total_values r = int (length data)
         \<and> missing_values r = int (length (filter pd_isna data))
         \<and> valid_values r = int (length (filter (\<lambda>x. x = Some True) v))
         \<and> 0 \<le> total_values r - missing_values r
         \<and> validity_rate r =
             (if 0 < total_values r - missing_values r
              then py_round2 (np_times (np_true_divide (valid_values r)
                                          (total_values r - missing_values r)) 100)
              else Finite 0)
         \<and> (0 < total_values r - missing_values r \<longrightarrow>
               (\<exists>y. validity_rate r = Finite y
                  \<and> \<bar>y - of_int (valid_values r) / of_int (total_values r - missing_values r) * 100\<bar>
                      \<le> 1 / 200 + 1 / 10 ^ 12))))
   \<and> (numeric_column data \<longrightarrow>
      (\<exists>r v. validate_bigint_detailed data min_val max_val = Inr (r, v)
         \<and> length v = length data
         \<and> total_values r = int (length data)
         \<and> missing_values r = int (length (filter pd_isna data))
         \<and> valid_values r = int (length (filter (\<lambda>x. x = Some True) v))
         \<and> 0 \<le> total_values r - missing_values r
         \<and> validity_rate r =
             (if 0 < total_values r - missing_values r
              then py_round2 (np_times (np_true_divide (valid_values r)
                                          (total_values r - missing_values r)) 100)
              else Finite 0)
         \<and> (0 < total_values r - missing_values r \<longrightarrow>
               (\<exists>y. validity_rate r = Finite y
                  \<and> \<bar>y - of_int (valid_values r) / of_int (total_values r - missing_values r) * 100\<bar>
                      \<le> 1 / 200 + 1 / 10 ^ 12))))"
proof (intro conjI impI)
  assume s: "str_usable data"
  show "\<exists>r v. validate_varchar_detailed data max_length = Inr (r, v)
         \<and> length v = length data
         \<and> total_values r = int (length data)
         \<and> missing_values r = int (length (filter pd_isna data))
         \<and> valid_values r = int (length (filter (\<lambda>x. x = Some True) v))
         \<and> 0 \<le> total_values r - missing_values r
         \<and> validity_rate r =
             (if 0 < total_values r - missing_values r
              then py_round2 (np_times (np_true_divide (valid_values r)
                                          (total_values r - missing_values r)) 100)
              else Finite 0)
         \<and> (0 < total_values r - missing_values r \<longrightarrow>
               (\<exists>y. validity_rate r = Finite y
                  \<and> \<bar>y - of_int (valid_values r) / of_int (total_values r - missing_values r) * 100\<bar>
                      \<le> 1 / 200 + 1 / 10 ^ 12))"
  proof -
    have "length (map (\<lambda>x. nan_le (str_len x) max_length) data) = length data"
      by simp
    note metrics_rate_props [OF refl refl this]
    with validate_varchar_usable [OF s, of max_length] show ?thesis
      by blast
  qed
next
  assume n: "numeric_column data"
  show "\<exists>r v. validate_bigint_detailed data min_val max_val = Inr (r, v)
         \<and> length v = length data
         \<and> total_values r = int (length data)
         \<and> missing_values r = int (length (filter pd_isna data))
         \<and> valid_values r = int (length (filter (\<lambda>x. x = Some True) v))
         \<and> 0 \<le> total_values r - missing_values r
         \<and> validity_rate r =
             (if 0 < total_values r - missing_values r
              then py_round2 (np_times (np_true_divide (valid_values r)
                                          (total_values r - missing_values r)) 100)
              else Finite 0)
         \<and> (0 < total_values r - missing_values r \<longrightarrow>
               (\<exists>y. validity_rate r = Finite y
                  \<and> \<bar>y - of_int (valid_values r) / of_int (total_values r - missing_values r) * 100\<bar>
                      \<le> 1 / 200 + 1 / 10 ^ 12))"
  proof -
    have "length (map (\<lambda>x. in_bounds x min_val max_val) data) = length data"
      by simp
    note metrics_rate_props [OF refl refl this]
    with validate_bigint_numeric [OF n, of min_val max_val] show ?thesis
      by blast
  qed
qed

theorem validity_rate_formula_witness:
  "str_usable (replicate 23 (PStr ''a'') @ replicate 137 (PStr ''abc'') @ replicate 5 PNone)
   \<and> numeric_column (replicate 49 (PInt 1) @ replicate 111 (PInt 500) @ [PNaN])
   \<and> (\<exists>r v. validate_varchar_detailed
                (replicate 23 (PStr ''a'') @ replicate 137 (PStr ''abc'') @ replicate 5 PNone) 1
              = Inr (r, v)
          \<and> total_values r = 165 \<and> missing_values r = 5 \<and> valid_values r = 23
          \<and> validity_rate r = Finite (fl (1437 / 100))
          \<and> \<bar>fl (1437 / 100) - 23 / 160 * 100\<bar> \<le> 1 / 200 + 1 / 10 ^ 12)
   \<and> (\<exists>r v. validate_bigint_detailed
                (replicate 49 (PInt 1) @ replicate 111 (PInt 500) @ [PNaN]) 0 100
              = Inr (r, v)
          \<and> total_values r = 161 \<and> missing_values r = 1 \<and> valid_values r = 49
          \<and> validity_rate r = Finite (fl (3063 / 100))
          \<and> \<bar>fl (3063 / 100) - 49 / 160 * 100\<bar> \<le> 1 / 200 + 1 / 10 ^ 12)"
proof -
  let ?S = "replicate 23 (PStr ''a'') @ replicate 137 (PStr ''abc'') @ replicate 5 PNone"
  let ?N = "replicate 49 (PInt 1) @ replicate 111 (PInt 500) @ [PNaN]"
  have s: "str_usable ?S" and n: "numeric_column ?N"
    by code_simp+
  have es: "map_sum id (\<lambda>(r, v). (total_values r, missing_values r, valid_values r, validity_rate r))
              (validate_varchar_detailed ?S 1) = Inr (165, 5, 23, Finite (fl (1437 / 100)))"
    by code_simp
  have en: "map_sum id (\<lambda>(r, v). (total_values r, missing_values r, valid_values r, validity_rate r))
              (validate_bigint_detailed ?N 0 100) = Inr (161, 1, 49, Finite (fl (3063 / 100)))"
    by code_simp
  from validity_rate_formula [of ?S 1 0 100] s
  obtain r v where a: "validate_varchar_detailed ?S 1 = Inr (r, v)"
    "0 < total_values r - missing_values r \<longrightarrow>
       (\<exists>y. validity_rate r = Finite y
          \<and> \<bar>y - of_int (valid_values r) / of_int (total_values r - missing_values r) * 100\<bar>
              \<le> 1 / 200 + 1 / 10 ^ 12)"
    by blast
  from validity_rate_formula [of ?N 1 0 100] n
  obtain r' v' where b: "validate_bigint_detailed ?N 0 100 = Inr (r', v')"
    "0 < total_values r' - missing_values r' \<longrightarrow>
       (\<exists>y. validity_rate r' = Finite y
          \<and> \<bar>y - of_int (valid_values r') / of_int (total_values r' - missing_values r') * 100\<bar>
              \<le> 1 / 200 + 1 / 10 ^ 12)"
    by blast
  have fa: "total_values r = 165" "missing_values r = 5" "valid_values r = 23"
    "validity_rate r = Finite (fl (1437 / 100))"
    using es a(1) by simp_all
  have fb: "total_values r' = 161" "missing_values r' = 1" "valid_values r' = 49"
    "validity_rate r' = Finite (fl (3063 / 100))"
    using en b(1) by simp_all
  have "\<bar>fl (1437 / 100) - 23 / 160 * 100\<bar> \<le> 1 / 200 + 1 / 10 ^ 12"
    using a(2) unfolding fa by simp
  moreover have "\<bar>fl (3063 / 100) - 49 / 160 * 100\<bar> \<le> 1 / 200 + 1 / 10 ^ 12"
    using b(2) unfolding fb by simp
  ultimately show ?thesis
    using s n a(1) b(1) fa fb by blast
qed

subsection \<open>The completeness check\<close>

text \<open>
  C4: for every Series \<open>check_completeness\<close> returns the length as total, the number of
  missing positions as missing, \<open>total - missing\<close>, the number of present positions, as
  present, and as rate \<open>round(present / total * 100, 2)\<close>, computed in float64; on an empty
  Series the rate is 0 and nothing is divided. The computed rate differs from the exact
  percentage by no more than half a unit of the second decimal place (and the rounding
  error of float64, below \<open>10\<^sup>-\<^sup>1\<^sup>2\<close>).
\<close>

theorem check_completeness_result:
  "total_values (check_completeness data) = int (length data)
   \<and> missing_values (check_completeness data) = int (length (filter pd_isna data))
   \<and> present_values (check_completeness data)
       = total_values (check_completeness data) - missing_values (check_completeness data)
   \<and> present_values (check_completeness data) = int (length (filter (\<lambda>x. \<not> pd_isna x) data))
   \<and> completeness_rate (check_completeness data)
       = (if total_values (check_completeness data) = 0 then Finite 0
          else py_round2 (np_times (np_true_divide (present_values (check_completeness data))
                                      (total_values (check_completeness data))) 100))
   \<and> (0 < total_values (check_completeness data) \<longrightarrow>
        (\<exists>y. completeness_rate (check_completeness data) = Finite y
           \<and> \<bar>y - of_int (present_values (check_completeness data))
                    / of_int (total_values (check_completeness data)) * 100\<bar>
               \<le> 1 / 200 + 1 / 10 ^ 12))"
proof -
  have f: "total_values (check_completeness data) = int (length data)"
    "missing_values (check_completeness data) = bool_sum (isna data)"
    "present_values (check_completeness data) = int (length data) - bool_sum (isna data)"
    by (simp_all add: check_completeness_def Let_def)
  have rate: "completeness_rate (check_completeness data)
       = (if int (length data) = 0 then Finite 0
          else py_round2 (np_times (np_true_divide (int (length data) - bool_sum (isna data))
                                      (int (length data))) 100))"
    by (simp add: check_completeness_def Let_def py_round2_zero)
  have acc: "\<exists>y. completeness_rate (check_completeness data) = Finite y
           \<and> \<bar>y - of_int (int (length data) - bool_sum (isna data)) / of_int (int (length data)) * 100\<bar>
               \<le> 1 / 200 + 1 / 10 ^ 12" if pos: "0 < int (length data)"
  proof -
    have lo: "0 \<le> int (length data) - bool_sum (isna data)"
      using bool_sum_isna_le [of data] by simp
    have hi: "int (length data) - bool_sum (isna data) \<le> int (length data)"
      using bool_sum_nonneg [of "isna data"] by simp
    have r: "completeness_rate (check_completeness data)
        = py_round2 (np_times (np_true_divide (int (length data) - bool_sum (isna data))
                                 (int (length data))) 100)"
      using rate pos by simp
    show ?thesis
      unfolding r by (rule rate_accuracy [OF lo hi pos])
  qed
  show ?thesis
    unfolding f using rate acc
    by (simp add: bool_sum_isna_count [symmetric] present_count [symmetric])
qed

theorem check_completeness_result_witness:
  "total_values (check_completeness (replicate 23 (PInt 1) @ replicate 137 PNone)) = 160
   \<and> missing_values (check_completeness (replicate 23 (PInt 1) @ replicate 137 PNone)) = 137
   \<and> present_values (check_completeness (replicate 23 (PInt 1) @ replicate 137 PNone)) = 23
   \<and> completeness_rate (check_completeness (replicate 23 (PInt 1) @ replicate 137 PNone))
       = Finite (fl (1437 / 100))
   \<and> \<bar>fl (1437 / 100) - 23 / 160 * 100\<bar> \<le> 1 / 200 + 1 / 10 ^ 12
   \<and> completeness_rate (check_completeness []) = Finite 0"
proof -
  let ?D = "replicate 23 (PInt 1) @ replicate 137 PNone"
  have e: "check_completeness ?D
      = \<lparr> total_values = 160, missing_values = 137, completeness_rate = Finite (fl (1437 / 100)),
          present_values = 23 \<rparr>"
    by code_simp
  have "0 < total_values (check_completeness ?D) \<longrightarrow>
        (\<exists>y. completeness_rate (check_completeness ?D) = Finite y
           \<and> \<bar>y - of_int (present_values (check_completeness ?D))
                    / of_int (total_values (check_completeness ?D)) * 100\<bar>
               \<le> 1 / 200 + 1 / 10 ^ 12)"
    using check_completeness_result [of ?D] by blast
  then have "\<bar>fl (1437 / 100) - 23 / 160 * 100\<bar> \<le> 1 / 200 + 1 / 10 ^ 12"
    unfolding e by simp
  moreover have "completeness_rate (check_completeness []) = Finite 0"
    using check_completeness_result [of "[]"] by simp
  ultimately show ?thesis
    unfolding e by simp
qed

subsection \<open>The empty Series\<close>

text \<open>
  C5: on the empty Series \<open>check_completeness\<close> returns rate 0 and both validity checks
  return \<open>validity_rate\<close> 0 without an error, but their \<open>completeness_rate\<close> is \<^verbatim>\<open>nan\<close>:
  the division \<open>(len(data) - missing_count) / len(data)\<close> has no guard, and \<open>0 / 0\<close> on a
  \<^verbatim>\<open>numpy.int64\<close> is \<^verbatim>\<open>nan\<close>.
\<close>

theorem empty_series_rates:
  "check_completeness []
     = \<lparr> total_values = 0, missing_values = 0, completeness_rate = Finite 0,
         present_values = 0 \<rparr>
   \<and> validate_varchar_detailed [] max_length
     = Inr (\<lparr> total_values = 0, missing_values = 0, completeness_rate = NotANumber,
              valid_values = 0, invalid_values = 0, validity_rate = Finite 0 \<rparr>, [])
   \<and> validate_bigint_detailed [] min_val max_val
     = Inr (\<lparr> total_values = 0, missing_values = 0, completeness_rate = NotANumber,
              valid_values = 0, invalid_values = 0, validity_rate = Finite 0 \<rparr>, [])"
proof -
  have s: "str_usable []" and n: "numeric_column []"
    by (simp_all add: str_usable_def numeric_column_def)
  have zero: "bool_sum (isna []) = 0" "py_round2 (Finite 0) = Finite 0"
    by (simp_all add: isna_def bool_sum_def py_round2_zero)
  have m: "validity_metrics 0 0 0 0
     = \<lparr> total_values = 0, missing_values = 0, completeness_rate = NotANumber,
              valid_values = 0, invalid_values = 0, validity_rate = Finite 0 \<rparr>"
    by (simp add: validity_metrics_def np_true_divide_def np_times_def py_round2_def)
  show ?thesis
    by (simp add: check_completeness_def zero validate_varchar_usable [OF s]
        validate_bigint_numeric [OF n] series_where_Nil count_eq_Nil m)
qed

subsection \<open>The string rule\<close>

text \<open>
  C6 as stated fails on its scenario: the second string of the column has 51 characters,
  so with \<open>max_length = 50\<close> the check counts it invalid.
\<close>

theorem varchar_scenario_counterexample:
  "length ''Exactly-fifty-chars-long-string-padded-to-50chars!!'' = 51
   \<and> validate_varchar_detailed
        [PStr ''Short'', PStr ''Exactly-fifty-chars-long-string-padded-to-50chars!!'', PNone] 50
     = Inr (\<lparr> total_values = 3, missing_values = 1, completeness_rate = Finite (fl (6667 / 100)),
              valid_values = 1, invalid_values = 1, validity_rate = Finite 50 \<rparr>,
            [Some True, Some False, None])"
  by code_simp

text \<open>
  C6, amended: whenever the string check returns, a string is valid iff its length is at
  most \<open>max_length\<close> (the check has no pattern argument); on the column of the scenario,
  with \<open>max_length = 50\<close>, it reports total 3, missing 1, valid 1, invalid 1 and
  \<open>validity_rate\<close> 50.
\<close>

theorem varchar_length_rule:
  "(str_usable data \<longrightarrow>
      (\<exists>r v. validate_varchar_detailed data max_length = Inr (r, v)
         \<and> (\<forall>i < length data. \<forall>s. data ! i = PStr s \<longrightarrow>
               v ! i = Some (int (length s) \<le> max_length))))
   \<and> (\<exists>r. validate_varchar_detailed
              [PStr ''Short'', PStr ''Exactly-fifty-chars-long-string-padded-to-50chars!!'', PNone] 50
            = Inr (r, [Some True, Some False, None])
          \<and> total_values r = 3 \<and> missing_values r = 1 \<and> valid_values r = 1
          \<and> invalid_values r = 1 \<and> validity_rate r = Finite 50)"
proof (intro conjI impI)
  assume "str_usable data"
  then show "\<exists>r v. validate_varchar_detailed data max_length = Inr (r, v)
         \<and> (\<forall>i < length data. \<forall>s. data ! i = PStr s \<longrightarrow>
               v ! i = Some (int (length s) \<le> max_length))"
    by (simp add: validate_varchar_usable verdict_nth)
next
  have "validate_varchar_detailed
        [PStr ''Short'', PStr ''Exactly-fifty-chars-long-string-padded-to-50chars!!'', PNone] 50
     = Inr (\<lparr> total_values = 3, missing_values = 1, completeness_rate = Finite (fl (6667 / 100)),
              valid_values = 1, invalid_values = 1, validity_rate = Finite 50 \<rparr>,
            [Some True, Some False, None])"
    by code_simp
  then show "\<exists>r. validate_varchar_detailed
              [PStr ''Short'', PStr ''Exactly-fifty-chars-long-string-padded-to-50chars!!'', PNone] 50
            = Inr (r, [Some True, Some False, None])
          \<and> total_values r = 3 \<and> missing_values r = 1 \<and> valid_values r = 1
          \<and> invalid_values r = 1 \<and> validity_rate r = Finite 50"
    by simp
qed

theorem varchar_length_rule_witness:
  "str_usable [PStr ''abc'', PNone, PStr ''abcdef'']
   \<and> (\<exists>r v. validate_varchar_detailed [PStr ''abc'', PNone, PStr ''abcdef''] 5 = Inr (r, v)
         \<and> v ! 0 = Some True \<and> v ! 2 = Some False)"
proof -
  let ?S = "[PStr ''abc'', PNone, PStr ''abcdef'']"
  have s: "str_usable ?S"
    by (simp add: str_usable_def)
  from varchar_length_rule [of ?S 5] s
  obtain r v where a: "validate_varchar_detailed ?S 5 = Inr (r, v)"
    "\<forall>i < length ?S. \<forall>s. ?S ! i = PStr s \<longrightarrow> v ! i = Some (int (length s) \<le> 5)"
    by blast
  have "v ! 0 = Some True"
    using a(2) [rule_format, of 0 "''abc''"] by simp
  moreover have "v ! 2 = Some False"
    using a(2) [rule_format, of 2 "''abcdef''"] by simp
  ultimately show ?thesis
    using s a(1) by simp
qed

subsection \<open>The integer rule\<close>

text \<open>
  On an object column the integer check follows the rule: whenever it returns, a present
  value is valid iff it lies between the bounds and has no fractional part, and the column
  \<open>[42, -100, 9223372036854775808, None]\<close> gives missing 1, valid 2, invalid 1 under the
  default bounds.
\<close>

lemma bigint_rule_object:
  "(numeric_column data \<longrightarrow>
      (\<exists>r v. validate_bigint_detailed data min_val max_val = Inr (r, v)
         \<and> (\<forall>i < length data.
               (\<forall>n. data ! i = PInt n \<longrightarrow> v ! i = Some (min_val \<le> n \<and> n \<le> max_val))
               \<and> (\<forall>q. data ! i = PFloat q \<longrightarrow>
                     v ! i = Some (of_int min_val \<le> q \<and> q \<le> of_int max_val \<and> frac q = 0)))))
   \<and> default_min_val = - (2 ^ 63) \<and> default_max_val = 2 ^ 63 - 1
   \<and> validate_bigint_default data = validate_bigint_detailed data (- (2 ^ 63)) (2 ^ 63 - 1)
   \<and> (\<exists>r. validate_bigint_default [PInt 42, PInt (- 100), PInt 9223372036854775808, PNone]
            = Inr (r, [Some True, Some True, Some False, None])
          \<and> missing_values r = 1 \<and> valid_values r = 2 \<and> invalid_values r = 1)
   \<and> (\<exists>r. validate_bigint_default [PFloat 42, PFloat (85 / 2)]
            = Inr (r, [Some True, Some False]))"
proof (intro conjI impI)
  have fl: "in_bounds (PFloat q) lo hi = (of_int lo \<le> q \<and> q \<le> of_int hi \<and> frac q = 0)"
    for q lo hi
    by (auto simp: frac_def)
  assume "numeric_column data"
  then show "\<exists>r v. validate_bigint_detailed data min_val max_val = Inr (r, v)
         \<and> (\<forall>i < length data.
               (\<forall>n. data ! i = PInt n \<longrightarrow> v ! i = Some (min_val \<le> n \<and> n \<le> max_val))
               \<and> (\<forall>q. data ! i = PFloat q \<longrightarrow>
                     v ! i = Some (of_int min_val \<le> q \<and> q \<le> of_int max_val \<and> frac q = 0)))"
    by (simp add: validate_bigint_numeric verdict_nth fl del: in_bounds.simps(2))
next
  show "default_min_val = - (2 ^ 63)" "default_max_val = 2 ^ 63 - 1"
    by (simp_all add: default_min_val_def default_max_val_def)
  then show "validate_bigint_default data = validate_bigint_detailed data (- (2 ^ 63)) (2 ^ 63 - 1)"
    by (simp add: validate_bigint_default_def)
next
  have "validate_bigint_default [PInt 42, PInt (- 100), PInt 9223372036854775808, PNone]
     = Inr (\<lparr> total_values = 4, missing_values = 1, completeness_rate = Finite 75,
              valid_values = 2, invalid_values = 1, validity_rate = Finite (fl (6667 / 100)) \<rparr>,
            [Some True, Some True, Some False, None])"
    by code_simp
  then show "\<exists>r. validate_bigint_default [PInt 42, PInt (- 100), PInt 9223372036854775808, PNone]
            = Inr (r, [Some True, Some True, Some False, None])
          \<and> missing_values r = 1 \<and> valid_values r = 2 \<and> invalid_values r = 1"
    by simp
next
  have "validate_bigint_default [PFloat 42, PFloat (85 / 2)]
     = Inr (\<lparr> total_values = 2, missing_values = 0, completeness_rate = Finite 100,
              valid_values = 1, invalid_values = 1, validity_rate = Finite 50 \<rparr>,
            [Some True, Some False])"
    by code_simp
  then show "\<exists>r. validate_bigint_default [PFloat 42, PFloat (85 / 2)]
            = Inr (r, [Some True, Some False])"
    by simp
qed

text \<open>
  C7: on a Series of dtype \<^verbatim>\<open>float64\<close> the check with the default bounds counts
  \<open>9223372036854775808.0\<close>, one above the maximum, as valid: the bound
  \<open>9223372036854775807\<close> is converted to float64, where it is \<open>9223372036854775808\<close>. In an
  object column the same value is counted invalid, as the rule says. An int of an object
  column that is too large for a float is not counted at all: the check raises
  \<open>OverflowError\<close>.
\<close>

theorem bigint_float64_bound:
  "fl (of_int default_max_val) = 9223372036854775808
   \<and> default_max_val < 9223372036854775808
   \<and> validate_bigint_float64 [Finite 9223372036854775808, Finite (85 / 2)]
        default_min_val default_max_val
     = (\<lparr> total_values = 2, missing_values = 0, completeness_rate = Finite 100,
          valid_values = 1, invalid_values = 1, validity_rate = Finite 50 \<rparr>,
        [Some True, Some False])
   \<and> validate_bigint_default [PFloat 9223372036854775808, PFloat (85 / 2)]
     = Inr (\<lparr> total_values = 2, missing_values = 0, completeness_rate = Finite 100,
              valid_values = 0, invalid_values = 2, validity_rate = Finite 0 \<rparr>,
            [Some False, Some False])
   \<and> validate_bigint_default [PInt (2 ^ 1024)] = Inl OverflowError"
  by code_simp

subsection \<open>Values of another type\<close>




subsection \<open>The original loop and the vectorized check\<close>




end
